theory Spec2Isabelle
  imports Complex_Main "HOL-Library.Multiset"
begin

section \<open>WebRing.tsx: the ring layout component\<close>

text \<open>
  A shallow embedding of \<^verbatim>\<open>src/app/components/WebRing.tsx\<close>. The component
  sorts the site records it is given, assigns ids and random start positions to
  them, links every record to the next one in the sorted order, hands records and
  links to a force simulation, and reacts to ticks, animation frames and drag
  events. Site records are JavaScript objects shared with the caller, so they live
  in an explicit store and the arrays hold their addresses.

  Numbers are modelled as exact reals (positions, energy, scale) and integers
  (the year), not as IEEE doubles.
\<close>

subsection \<open>Configuration (getConfig)\<close>

record config =
  node_fillColor :: string
  node_hoverColor :: string
  forces_alphaDecay :: real
  forces_velocityDecay :: real
  zoom_minScale :: real
  zoom_maxScale :: real

definition getConfig :: config where
  "getConfig =
     \<lparr> node_fillColor = ''#333333'',
       node_hoverColor = ''#fbcb97'',
       forces_alphaDecay = 0.02,
       forces_velocityDecay = 0.3,
       zoom_minScale = 0.5,
       zoom_maxScale = 2 \<rparr>"

subsection \<open>Data model\<close>

text \<open>
  \<^verbatim>\<open>interface Site extends d3.SimulationNodeDatum\<close>: the declared fields and
  the optional numeric fields of a simulation node. An absent optional field
  (\<^verbatim>\<open>undefined\<close>) is \<open>None\<close>. The fields \<^verbatim>\<open>id\<close> and \<^verbatim>\<open>index\<close> are called
  \<open>id_site\<close> and \<open>index_site\<close>.
\<close>

record site =
  website :: string
  name :: string
  id_site :: "string option"
  program :: string
  year :: int
  index_site :: "nat option"
  x :: "real option"
  y :: "real option"
  vx :: "real option"
  vy :: "real option"
  fx :: "real option"
  fy :: "real option"

type_synonym addr = nat

text \<open>The store of site objects: every reference points to an object.\<close>

type_synonym store = "addr \<Rightarrow> site"

datatype webringData = WebringData (sites: "addr list")

datatype SortField = Name | Program | Year

datatype SortDirection = Asc | Desc

record link =
  source :: "string option"
  target :: "string option"

text \<open>The render surface: \<^verbatim>\<open>containerRef.current\<close> with its pixel size.\<close>

record container =
  clientWidth :: nat
  clientHeight :: nat

text \<open>
  What the host environment supplies: the collation \<^verbatim>\<open>String.prototype.localeCompare\<close>
  (negative, zero or positive), \<^verbatim>\<open>String.prototype.toLowerCase\<close>, and the
  successive results of \<^verbatim>\<open>Math.random()\<close>, numbered in the order of the calls.
\<close>

record host =
  localeCompare :: "string \<Rightarrow> string \<Rightarrow> int"
  toLowerCase :: "string \<Rightarrow> string"
  random :: "nat \<Rightarrow> real"

subsection \<open>Sorting (lines 128-152)\<close>

text \<open>The two values the \<^verbatim>\<open>switch\<close> leaves in \<^verbatim>\<open>aValue\<close> and \<^verbatim>\<open>bValue\<close>:
  both strings, or both numbers.\<close>

datatype sort_values = Strings string string | Numbers int int

definition sortValues :: "host \<Rightarrow> SortField option \<Rightarrow> site \<Rightarrow> site \<Rightarrow> sort_values" where
  "sortValues h sortField a b =
     (case sortField of
        Some Name \<Rightarrow> Strings (toLowerCase h (name a)) (toLowerCase h (name b))
      | Some Program \<Rightarrow> Strings (toLowerCase h (program a)) (toLowerCase h (program b))
      | Some Year \<Rightarrow> Numbers (year a) (year b)
      | None \<Rightarrow> Strings [] [])"

definition compareSites ::
  "host \<Rightarrow> SortField option \<Rightarrow> SortDirection option \<Rightarrow> site \<Rightarrow> site \<Rightarrow> int" where
  "compareSites h sortField sortDirection a b =
     (case sortValues h sortField a b of
        Strings aValue bValue \<Rightarrow>
          (if sortDirection = Some Asc then localeCompare h aValue bValue
           else localeCompare h bValue aValue)
      | Numbers aValue bValue \<Rightarrow>
          (if sortDirection = Some Asc then aValue - bValue else bValue - aValue))"

text \<open>
  \<^verbatim>\<open>Array.prototype.sort\<close> with a comparator is a stable sort: an element
  goes before the first element it does not compare greater than.
\<close>

fun insort_cmp :: "('a \<Rightarrow> 'a \<Rightarrow> int) \<Rightarrow> 'a \<Rightarrow> 'a list \<Rightarrow> 'a list" where
  "insort_cmp cmp a [] = [a]"
| "insort_cmp cmp a (b # bs) =
     (if cmp a b \<le> 0 then a # b # bs else b # insort_cmp cmp a bs)"

definition sort_cmp :: "('a \<Rightarrow> 'a \<Rightarrow> int) \<Rightarrow> 'a list \<Rightarrow> 'a list" where
  "sort_cmp cmp as = foldr (insort_cmp cmp) as []"

subsection \<open>Ids, start positions and links (lines 154-163)\<close>

definition digit_char :: "nat \<Rightarrow> char" where
  "digit_char d = char_of (48 + d)"

fun string_of_nat :: "nat \<Rightarrow> string" where
  "string_of_nat n =
     (if n < 10 then [digit_char n]
      else string_of_nat (n div 10) @ [digit_char (n mod 10)])"

declare string_of_nat.simps [simp del]

text \<open>The template string \<^verbatim>\<open>`node-${index}`\<close>.\<close>

definition node_id :: "nat \<Rightarrow> string" where
  "node_id index = ''node-'' @ string_of_nat index"

text \<open>The body of \<^verbatim>\<open>sortedSites.forEach\<close>: the record at \<open>index\<close> takes the
  next two random numbers.\<close>

definition init_site :: "(nat \<Rightarrow> real) \<Rightarrow> real \<Rightarrow> real \<Rightarrow> nat \<Rightarrow> site \<Rightarrow> site" where
  "init_site rnd w h index s =
     s\<lparr> id_site := Some (node_id index),
        x := Some (rnd (2 * index) * w),
        y := Some (rnd (2 * index + 1) * h) \<rparr>"

fun forEach_init ::
  "(nat \<Rightarrow> real) \<Rightarrow> real \<Rightarrow> real \<Rightarrow> nat \<Rightarrow> addr list \<Rightarrow> store \<Rightarrow> store" where
  "forEach_init rnd w h index [] st = st"
| "forEach_init rnd w h index (a # as) st =
     forEach_init rnd w h (Suc index) as (st(a := init_site rnd w h index (st a)))"

text \<open>\<^verbatim>\<open>sortedSites.map\<close>: one link per index, to the record at
  \<^verbatim>\<open>(index + 1) % sortedSites.length\<close>.\<close>

definition make_links :: "store \<Rightarrow> addr list \<Rightarrow> link list" where
  "make_links st sortedSites =
     map (\<lambda>index.
            \<lparr> source = id_site (st (sortedSites ! index)),
              target = id_site (st (sortedSites ! ((index + 1) mod length sortedSites))) \<rparr>)
         [0 ..< length sortedSites]"

subsection \<open>The simulation and the layout instance\<close>

record simulation =
  alpha :: real
  alphaTarget :: real
  alphaDecay :: real
  velocityDecay :: real

text \<open>
  Modelled from the spec: \<^verbatim>\<open>d3.forceSimulation\<close> is not part of the sources. The
  energy starts at 1 with target 0 (spec section 3: "starting near 1 and decaying
  toward 0"); the two decay rates are the ones the component configures.
\<close>

definition forceSimulation :: "config \<Rightarrow> simulation" where
  "forceSimulation conf =
     \<lparr> alpha = 1, alphaTarget = 0,
       alphaDecay = forces_alphaDecay conf,
       velocityDecay = forces_velocityDecay conf \<rparr>"

text \<open>
  Modelled from the spec: what \<^verbatim>\<open>d3.forceSimulation(sortedSites)\<close> (lines 165-166)
  writes on the records it is given is not part of the sources. The engine owns
  the positions and velocities of its nodes (spec section 2) and keeps the node
  invariant of spec section 3 from its creation on: the position of a node with
  a fixed override is the override. So the node at position \<open>i\<close> of the array gets
  the index \<open>i\<close>, a coordinate with a fixed override is set to the override, and a
  node that lacks a velocity gets the velocity 0. (A node without a position
  would be placed by the engine; after the forEach of lines 154-158 every node
  has one, and such a node is left as it is here.)
\<close>

definition initialize_node :: "nat \<Rightarrow> site \<Rightarrow> site" where
  "initialize_node i s =
     (let s1 = s\<lparr> index_site := Some i \<rparr>;
          s2 = (case fx s1 of Some f \<Rightarrow> s1\<lparr> x := Some f \<rparr> | None \<Rightarrow> s1);
          s3 = (case fy s2 of Some f \<Rightarrow> s2\<lparr> y := Some f \<rparr> | None \<Rightarrow> s2)
      in if vx s3 = None \<or> vy s3 = None then s3\<lparr> vx := Some 0, vy := Some 0 \<rparr> else s3)"

fun initializeNodes :: "nat \<Rightarrow> addr list \<Rightarrow> store \<Rightarrow> store" where
  "initializeNodes i [] st = st"
| "initializeNodes i (a # as) st =
     initializeNodes (Suc i) as (st(a := initialize_node i (st a)))"

text \<open>A circle of the scene: the site object bound to it and its fill colour (the
  target of the last fill transition).\<close>

record circle =
  datum :: addr
  fill :: string

text \<open>A requested camera transition: the scale and the point it is centred on.\<close>

record zoom_request =
  scale :: real
  centre_x :: real
  centre_y :: real

text \<open>
  Everything one run of the first effect creates: the store after the records were
  written, the sorted array, the links, the simulation, the size of the surface,
  the circles of the scene, the three flags of lines 239-241, and the camera
  transitions requested so far.
\<close>

record layout =
  heap :: store
  sortedSites :: "addr list"
  links :: "link list"
  sim :: simulation
  width :: real
  height :: real
  nodeCount :: nat
  circles :: "circle list"
  simulationEnded :: bool
  initialZoomApplied :: bool
  frameScheduled :: bool
  zoomTransitions :: "zoom_request list"

text \<open>
  The body of the first effect after its guard (lines 101-312): the copy of the
  array is sorted, the records are written through their references, and the
  links are made from the ids, the simulation is created on the sorted array
  (which writes the records once more), and the circles and the flags are
  created.
\<close>

definition build_layout ::
  "host \<Rightarrow> container \<Rightarrow> webringData \<Rightarrow> SortField option \<Rightarrow> SortDirection option \<Rightarrow>
   store \<Rightarrow> layout" where
  "build_layout h cont wd sortField sortDirection st =
     (let conf = getConfig;
          w = real (clientWidth cont);
          ht = real (clientHeight cont);
          ss = sort_cmp (\<lambda>a b. compareSites h sortField sortDirection (st a) (st b)) (sites wd);
          st' = forEach_init (random h) w ht 0 ss st;
          st'' = initializeNodes 0 ss st'
      in \<lparr> heap = st'',
           sortedSites = ss,
           links = make_links st' ss,
           sim = forceSimulation conf,
           width = w,
           height = ht,
           nodeCount = length (sites wd),
           circles = map (\<lambda>a. \<lparr> datum = a, fill = node_fillColor conf \<rparr>) ss,
           simulationEnded = False,
           initialZoomApplied = True,
           frameScheduled = False,
           zoomTransitions = [] \<rparr>)"

text \<open>
  The first effect (lines 98-312). It returns at once, building nothing (\<open>None\<close>),
  when the container is missing, the data is missing or the list is empty.
\<close>

definition setup_layout ::
  "host \<Rightarrow> container option \<Rightarrow> webringData option \<Rightarrow> SortField option \<Rightarrow>
   SortDirection option \<Rightarrow> store \<Rightarrow> layout option" where
  "setup_layout h containerRef data sortField sortDirection st =
     (case containerRef of
        None \<Rightarrow> None
      | Some cont \<Rightarrow>
          (case data of
             None \<Rightarrow> None
           | Some wd \<Rightarrow>
               if length (sites wd) = 0 then None
               else Some (build_layout h cont wd sortField sortDirection st)))"

subsection \<open>The render sync loop (lines 243-292)\<close>

text \<open>Line 262. The node count is at least 1 here, since the setup has returned for an
  empty list (at 0 the JavaScript value is \<^verbatim>\<open>Infinity\<close>, while \<open>1 / 0 = 0\<close> in HOL).\<close>

definition initialScale :: "nat \<Rightarrow> real" where
  "initialScale n = max 0.1 (1 / sqrt (real n / 20))"

text \<open>
  \<^verbatim>\<open>updateDOM\<close>. Copying the positions into the attributes of the lines, circles
  and labels is not modelled; the two checks on the energy are.
\<close>

definition updateDOM :: "layout \<Rightarrow> layout" where
  "updateDOM L =
     (let L1 = L\<lparr> frameScheduled := False \<rparr>;
          L2 = (if \<not> initialZoomApplied L1 \<and> alpha (sim L1) < 0.5
                then L1\<lparr> initialZoomApplied := True,
                         zoomTransitions := zoomTransitions L1 @
                           [\<lparr> scale = initialScale (nodeCount L1),
                              centre_x = width L1 / 2,
                              centre_y = height L1 / 2 \<rparr>] \<rparr>
                else L1)
      in if alpha (sim L2) < 0.1 \<and> \<not> simulationEnded L2
         then L2\<lparr> simulationEnded := True \<rparr>
         else L2)"

text \<open>The tick listener: at most one draw is requested per animation frame.\<close>

definition on_tick :: "layout \<Rightarrow> layout" where
  "on_tick L = (if \<not> frameScheduled L then L\<lparr> frameScheduled := True \<rparr> else L)"

text \<open>The animation frame runs the requested draw, if there is one.\<close>

definition animationFrame :: "layout \<Rightarrow> layout" where
  "animationFrame L = (if frameScheduled L then updateDOM L else L)"

subsection \<open>The engine's tick\<close>

text \<open>
  Modelled from the spec: the tick of \<^verbatim>\<open>d3.forceSimulation\<close> is not part of the
  sources. Spec section 4.2, step 6: the energy moves towards its target by the
  decay rate.
\<close>

definition decay_alpha :: "simulation \<Rightarrow> simulation" where
  "decay_alpha s = s\<lparr> alpha := alpha s + (alphaTarget s - alpha s) * alphaDecay s \<rparr>"

text \<open>
  Modelled from the spec: steps 1 to 4 (the four force contributors) are an
  arbitrary function \<open>F\<close> of the store, of which a node keeps the position and the
  velocity only: the forces never write the fixed override.
\<close>

definition after_forces :: "(store \<Rightarrow> store) \<Rightarrow> store \<Rightarrow> addr \<Rightarrow> site" where
  "after_forces F st a =
     (st a)\<lparr> x := x (F st a), y := y (F st a), vx := vx (F st a), vy := vy (F st a) \<rparr>"

text \<open>
  Modelled from the spec: step 5, one axis. A coordinate with a fixed override is
  forced to the override and its velocity is not integrated; a free coordinate
  has its velocity damped and added. The pair is (position, velocity); a missing
  operand leaves both undefined.
\<close>

definition integrate_axis ::
  "real \<Rightarrow> real option \<Rightarrow> real option \<Rightarrow> real option \<Rightarrow> real option \<times> real option" where
  "integrate_axis damp fixed pos vel =
     (case fixed of
        Some f \<Rightarrow> (Some f, vel)
      | None \<Rightarrow>
          (case (pos, vel) of
             (Some p, Some v) \<Rightarrow> (Some (p + v * damp), Some (v * damp))
           | _ \<Rightarrow> (None, None)))"

text \<open>Modelled from the spec: step 5 for one node, the two axes on their own.\<close>

definition integrate :: "real \<Rightarrow> site \<Rightarrow> site" where
  "integrate damp s =
     (let (px, pvx) = integrate_axis damp (fx s) (x s) (vx s);
          (py, pvy) = integrate_axis damp (fy s) (y s) (vy s)
      in s\<lparr> x := px, vx := pvx, y := py, vy := pvy \<rparr>)"

text \<open>
  Modelled from the spec: one tick. The energy decays (step 6), every node of the
  simulation is integrated after the forces (steps 1 to 5) with the velocity
  damped by the factor \<open>1 - velocityDecay\<close>, and the observers are notified
  (step 7): the listener of lines 287-292 runs.
\<close>

definition tick :: "(store \<Rightarrow> store) \<Rightarrow> layout \<Rightarrow> layout" where
  "tick F L =
     on_tick
       (L\<lparr> sim := decay_alpha (sim L),
           heap := (\<lambda>a. if a \<in> set (sortedSites L)
                         then integrate (1 - velocityDecay (sim L)) (after_forces F (heap L) a)
                         else heap L a) \<rparr>)"

subsection \<open>Drag and hover handlers (lines 215-223 and 294-311)\<close>

text \<open>A drag event: the number of other active gestures, the site object under the
  pointer, and the pointer's coordinates.\<close>

record drag_event =
  active :: nat
  subject :: addr
  event_x :: real
  event_y :: real

definition dragstart :: "drag_event \<Rightarrow> layout \<Rightarrow> layout" where
  "dragstart event L =
     (let L1 = (if active event = 0 then L\<lparr> sim := (sim L)\<lparr> alphaTarget := 0.3 \<rparr> \<rparr> else L)
      in L1\<lparr> heap := (heap L1)(subject event :=
                 (heap L1 (subject event))
                   \<lparr> fx := x (heap L1 (subject event)),
                     fy := y (heap L1 (subject event)) \<rparr>) \<rparr>)"

definition dragging :: "drag_event \<Rightarrow> layout \<Rightarrow> layout" where
  "dragging event L =
     L\<lparr> heap := (heap L)(subject event :=
            (heap L (subject event))\<lparr> fx := Some (event_x event), fy := Some (event_y event) \<rparr>) \<rparr>"

definition dragend :: "drag_event \<Rightarrow> layout \<Rightarrow> layout" where
  "dragend event L =
     (let L1 = (if active event = 0 then L\<lparr> sim := (sim L)\<lparr> alphaTarget := 0 \<rparr> \<rparr> else L)
      in L1\<lparr> heap := (heap L1)(subject event :=
                 (heap L1 (subject event))\<lparr> fx := None, fy := None \<rparr>) \<rparr>)"

text \<open>The pointer enters or leaves the circle at a position of the scene.\<close>

definition mouseenter :: "nat \<Rightarrow> layout \<Rightarrow> layout" where
  "mouseenter i L =
     (if i < length (circles L)
      then L\<lparr> circles := (circles L)[i := (circles L ! i)\<lparr> fill := node_hoverColor getConfig \<rparr>] \<rparr>
      else L)"

definition mouseleave :: "nat \<Rightarrow> layout \<Rightarrow> layout" where
  "mouseleave i L =
     (if i < length (circles L)
      then L\<lparr> circles := (circles L)[i := (circles L ! i)\<lparr> fill := node_fillColor getConfig \<rparr>] \<rparr>
      else L)"

subsection \<open>Traces\<close>

text \<open>What can happen to a layout instance between its creation and its end. The
  timer that stops the engine is not modelled: a trace has a tick where the engine
  ticked.\<close>

datatype event =
    Tick "store \<Rightarrow> store"
  | AnimationFrame
  | DragStart drag_event
  | Drag drag_event
  | DragEnd drag_event
  | MouseEnter nat
  | MouseLeave nat

fun step :: "event \<Rightarrow> layout \<Rightarrow> layout" where
  "step (Tick F) L = tick F L"
| "step AnimationFrame L = animationFrame L"
| "step (DragStart e) L = dragstart e L"
| "step (Drag e) L = dragging e L"
| "step (DragEnd e) L = dragend e L"
| "step (MouseEnter i) L = mouseenter i L"
| "step (MouseLeave i) L = mouseleave i L"

fun run :: "event list \<Rightarrow> layout \<Rightarrow> layout" where
  "run [] L = L"
| "run (e # es) L = run es (step e L)"

subsection \<open>The highlight effect (lines 314-325)\<close>

definition highlight_fill :: "config \<Rightarrow> string option \<Rightarrow> string option \<Rightarrow> site \<Rightarrow> string" where
  "highlight_fill conf hoveredProgram hoveredSite d =
     (if hoveredProgram = Some (program d) \<or> hoveredSite = Some (name d)
      then node_hoverColor conf else node_fillColor conf)"

definition highlightEffect ::
  "container option \<Rightarrow> string option \<Rightarrow> string option \<Rightarrow> layout \<Rightarrow> layout" where
  "highlightEffect containerRef hoveredProgram hoveredSite L =
     (case containerRef of
        None \<Rightarrow> L
      | Some cont \<Rightarrow>
          L\<lparr> circles :=
               map (\<lambda>c. c\<lparr> fill := highlight_fill getConfig hoveredProgram hoveredSite
                                     (heap L (datum c)) \<rparr>)
                   (circles L) \<rparr>)"

subsection \<open>Graph notions\<close>

text \<open>
  The notions the ring property is stated with. The degree of a node counts the
  link ends at it; the successor of a node is the target of the first link that
  leaves it; a walk follows successors. \<open>ring n\<close> is the ring the spec describes:
  link \<open>i\<close> goes from node \<open>i\<close> to node \<open>(i + 1) mod n\<close>.
\<close>

definition degree :: "link list \<Rightarrow> string option \<Rightarrow> nat" where
  "degree ls v = length (filter (\<lambda>l. source l = v) ls) + length (filter (\<lambda>l. target l = v) ls)"

definition successor :: "link list \<Rightarrow> string option \<Rightarrow> string option option" where
  "successor ls v =
     (case filter (\<lambda>l. source l = v) ls of [] \<Rightarrow> None | l # _ \<Rightarrow> Some (target l))"

fun walk :: "link list \<Rightarrow> string option \<Rightarrow> nat \<Rightarrow> string option option" where
  "walk ls v 0 = Some v"
| "walk ls v (Suc k) = (case walk ls v k of None \<Rightarrow> None | Some u \<Rightarrow> successor ls u)"

definition ring :: "nat \<Rightarrow> link list" where
  "ring n = map (\<lambda>i. \<lparr> source = Some (node_id i), target = Some (node_id ((i + 1) mod n)) \<rparr>) [0 ..< n]"

subsection \<open>The order a sort key asks for\<close>

text \<open>
  The spec's ordering of two records under a key: string keys by the collation of
  their lowercased values, the year numerically.
\<close>

definition key_le :: "host \<Rightarrow> SortField \<Rightarrow> site \<Rightarrow> site \<Rightarrow> bool" where
  "key_le h f a b =
     (case f of
        Name \<Rightarrow> localeCompare h (toLowerCase h (name a)) (toLowerCase h (name b)) \<le> 0
      | Program \<Rightarrow> localeCompare h (toLowerCase h (program a)) (toLowerCase h (program b)) \<le> 0
      | Year \<Rightarrow> year a \<le> year b)"

subsection \<open>The camera's scale extent\<close>

text \<open>
  Modelled from the spec: the zoom behaviour of \<^verbatim>\<open>d3.zoom\<close> is not part of the
  sources. Spec sections 3 and 8: the camera's scale is constrained to (clamped
  within) the interval from \<open>minScale\<close> to \<open>maxScale\<close>, the extent of lines 118-120.
\<close>

definition clamp_scale :: "config \<Rightarrow> real \<Rightarrow> real" where
  "clamp_scale conf k = max (zoom_minScale conf) (min (zoom_maxScale conf) k)"

subsection \<open>A drag in progress\<close>

text \<open>
  While the node \<open>a\<close> is dragged, its drag neither starts nor ends again; every
  other event may happen. \<open>pointer_override\<close> is the override the pointer asks
  for: the coordinates of the last drag move on \<open>a\<close>, or the first override when
  no move has happened.
\<close>

fun keeps_drag :: "addr \<Rightarrow> event \<Rightarrow> bool" where
  "keeps_drag a (DragStart e) = (subject e \<noteq> a)"
| "keeps_drag a (DragEnd e) = (subject e \<noteq> a)"
| "keeps_drag a _ = True"

fun override_after :: "addr \<Rightarrow> event \<Rightarrow> real option \<times> real option \<Rightarrow> real option \<times> real option" where
  "override_after a (Drag e) ov =
     (if subject e = a then (Some (event_x e), Some (event_y e)) else ov)"
| "override_after a _ ov = ov"

fun pointer_override ::
  "addr \<Rightarrow> real option \<times> real option \<Rightarrow> event list \<Rightarrow> real option \<times> real option" where
  "pointer_override a ov [] = ov"
| "pointer_override a ov (e # es) = pointer_override a (override_after a e ov) es"

subsection \<open>The invariant of the energy\<close>

text \<open>What every reachable simulation state satisfies: the energy is positive and
  at most 1, its target is one of the two values the drag handlers set, and the
  decay rate is the configured one.\<close>

definition energy_inv :: "simulation \<Rightarrow> bool" where
  "energy_inv s =
     (0 < alpha s \<and> alpha s \<le> 1 \<and> (alphaTarget s = 0 \<or> alphaTarget s = 0.3) \<and>
      alphaDecay s = 0.02)"

subsection \<open>A sample host and sample data\<close>

text \<open>
  A collation (by character code), a lowercase function (ASCII) and a constant
  random source to instantiate the host with; three site records at the
  addresses 0, 1 and 2; a surface of 800 by 600.
\<close>

definition ascii_lower :: "char \<Rightarrow> char" where
  "ascii_lower c =
     (if 65 \<le> (of_char c :: nat) \<and> (of_char c :: nat) \<le> 90 then char_of (of_char c + 32 :: nat) else c)"

fun codepoint_compare :: "string \<Rightarrow> string \<Rightarrow> int" where
  "codepoint_compare [] [] = 0"
| "codepoint_compare [] (d # t) = - 1"
| "codepoint_compare (c # s) [] = 1"
| "codepoint_compare (c # s) (d # t) =
     (if (of_char c :: nat) < of_char d then - 1
      else if (of_char d :: nat) < of_char c then 1
      else codepoint_compare s t)"

definition example_host :: host where
  "example_host =
     \<lparr> localeCompare = codepoint_compare, toLowerCase = map ascii_lower, random = (\<lambda>k. 1 / 2) \<rparr>"

definition example_container :: container where
  "example_container = \<lparr> clientWidth = 800, clientHeight = 600 \<rparr>"

definition example_site :: "string \<Rightarrow> string \<Rightarrow> int \<Rightarrow> site" where
  "example_site n p yr =
     \<lparr> website = ''https://example.org'', name = n, id_site = None, program = p, year = yr,
       index_site = None, x = None, y = None, vx = None, vy = None, fx = None, fy = None \<rparr>"

definition example_store :: store where
  "example_store a =
     (if a = 0 then example_site ''Cleo'' ''SOEN'' 2026
      else if a = 1 then example_site ''ada'' ''COEN'' 2024
      else example_site ''Bob'' ''COEN'' 2025)"

definition example_layout :: layout where
  "example_layout =
     build_layout example_host example_container (WebringData [0, 1, 2]) (Some Name) (Some Asc)
       example_store"



definition example_single :: layout where
  "example_single =
     build_layout example_host example_container (WebringData [0]) None None example_store"

section \<open>Properties\<close>

subsection \<open>Ids are decimal numerals, hence pairwise different\<close>

lemma of_char_digit_char: "d < 10 \<Longrightarrow> of_char (digit_char d) = 48 + d"
  by (simp add: digit_char_def)

lemma digit_char_inj: "a < 10 \<Longrightarrow> b < 10 \<Longrightarrow> digit_char a = digit_char b \<Longrightarrow> a = b"
proof -
  assume a: "a < 10" and b: "b < 10" and eq: "digit_char a = digit_char b"
  from eq have "(of_char (digit_char a) :: nat) = of_char (digit_char b)"
    by (rule arg_cong)
  then have "48 + a = 48 + b"
    by (simp only: of_char_digit_char[OF a] of_char_digit_char[OF b])
  then show "a = b" by (simp only: add_left_cancel)
qed

lemma string_of_nat_not_Nil: "string_of_nat n \<noteq> []"
  by (subst string_of_nat.simps) simp

lemma string_of_nat_length_big: "10 \<le> n \<Longrightarrow> 2 \<le> length (string_of_nat n)"
  using string_of_nat_not_Nil[of "n div 10"]
  by (subst string_of_nat.simps) (cases "string_of_nat (n div 10)"; simp)

lemma string_of_nat_inj: "string_of_nat m = string_of_nat n \<Longrightarrow> m = n"
proof (induction m arbitrary: n rule: string_of_nat.induct)
  case (1 m)
  show ?case
  proof (cases "m < 10")
    case True
    note m = this
    show ?thesis
    proof (cases "n < 10")
      case True
      with m "1.prems" show ?thesis
        by (simp add: string_of_nat.simps[of m] string_of_nat.simps[of n] digit_char_inj)
    next
      case False
      with string_of_nat_length_big[of n] have "2 \<le> length (string_of_nat n)" by simp
      moreover from m "1.prems" have "length (string_of_nat n) = 1"
        by (simp add: string_of_nat.simps[of m] flip: "1.prems")
      ultimately show ?thesis by simp
    qed
  next
    case False
    note m = this
    show ?thesis
    proof (cases "n < 10")
      case True
      with string_of_nat_length_big[of m] m have "2 \<le> length (string_of_nat m)" by simp
      moreover from True "1.prems" have "length (string_of_nat m) = 1"
        by (simp add: string_of_nat.simps[of n])
      ultimately show ?thesis by simp
    next
      case False
      with m "1.prems" have eq: "string_of_nat (m div 10) = string_of_nat (n div 10)"
        and d: "digit_char (m mod 10) = digit_char (n mod 10)"
        by (simp_all add: string_of_nat.simps[of m] string_of_nat.simps[of n])
      from "1.IH"[OF m eq] have "m div 10 = n div 10" .
      moreover from d have "m mod 10 = n mod 10"
        by (intro digit_char_inj) simp_all
      ultimately show ?thesis
        by (metis div_mult_mod_eq)
    qed
  qed
qed

lemma node_id_inj: "node_id i = node_id j \<Longrightarrow> i = j"
  by (simp add: node_id_def string_of_nat_inj)

lemma inj_node_id: "inj node_id"
  by (rule injI) (rule node_id_inj)

subsection \<open>The sort returns a permutation\<close>

lemma mset_insort_cmp: "mset (insort_cmp cmp a bs) = add_mset a (mset bs)"
  by (induction bs) simp_all

lemma mset_sort_cmp: "mset (sort_cmp cmp as) = mset as"
  by (induction as) (simp_all add: sort_cmp_def mset_insort_cmp)


lemma length_sort_cmp: "length (sort_cmp cmp as) = length as"
  using mset_sort_cmp[of cmp as] by (metis size_mset)

lemma distinct_sort_cmp: "distinct (sort_cmp cmp as) = distinct as"
  by (rule mset_eq_imp_distinct_iff) (rule mset_sort_cmp)

subsection \<open>The sort orders by the comparator\<close>

lemma codepoint_compare_sym: "codepoint_compare t s = - codepoint_compare s t"
  by (induction s t rule: codepoint_compare.induct) auto

lemma codepoint_compare_total: "codepoint_compare s t \<le> 0 \<or> codepoint_compare t s \<le> 0"
  using codepoint_compare_sym[of t s] by linarith

lemma codepoint_compare_trans:
  "codepoint_compare s t \<le> 0 \<Longrightarrow> codepoint_compare t u \<le> 0 \<Longrightarrow> codepoint_compare s u \<le> 0"
proof (induction s t arbitrary: u rule: codepoint_compare.induct)
  case 1
  then show ?case by simp
next
  case (2 d t)
  then show ?case by (cases u) simp_all
next
  case (3 c s)
  then show ?case by simp
next
  case (4 c s d t)
  show ?case
  proof (cases u)
    case Nil
    with "4.prems" show ?thesis by simp
  next
    case (Cons e v)
    from "4.prems"(1) have cd: "(of_char c :: nat) \<le> of_char d"
      by (simp split: if_splits)
    from "4.prems"(2) Cons have de: "(of_char d :: nat) \<le> of_char e"
      by (simp split: if_splits)
    show ?thesis
    proof (cases "(of_char c :: nat) < of_char e")
      case True
      with Cons show ?thesis by simp
    next
      case False
      with cd de have c: "(of_char c :: nat) = of_char d" and d: "(of_char d :: nat) = of_char e"
        by linarith+
      from c "4.prems"(1) have 1: "codepoint_compare s t \<le> 0" by simp
      from d "4.prems"(2) Cons have 2: "codepoint_compare t v \<le> 0" by simp
      from "4.IH"[OF _ _ 1 2] c have "codepoint_compare s v \<le> 0" by simp
      with c d Cons show ?thesis by simp
    qed
  qed
qed

lemma set_insort_cmp: "set (insort_cmp cmp a bs) = insert a (set bs)"
  by (induction bs) auto

lemma sorted_wrt_insort_cmp:
  assumes total: "\<And>a b. le a b \<or> le b a"
    and trans: "\<And>a b c. le a b \<Longrightarrow> le b c \<Longrightarrow> le a c"
    and cmp: "\<And>a b. (cmp a b \<le> 0) = le a b"
  shows "sorted_wrt le bs \<Longrightarrow> sorted_wrt le (insort_cmp cmp a bs)"
proof (induction bs)
  case Nil
  then show ?case by simp
next
  case (Cons b bs)
  show ?case
  proof (cases "le a b")
    case True
    with Cons.prems trans have "\<forall>c \<in> set (b # bs). le a c" by auto
    with True Cons.prems show ?thesis by (simp add: cmp)
  next
    case False
    with total have "le b a" by blast
    with False Cons show ?thesis by (simp add: cmp set_insort_cmp)
  qed
qed

lemma sorted_wrt_sort_cmp:
  assumes total: "\<And>a b. le a b \<or> le b a"
    and trans: "\<And>a b c. le a b \<Longrightarrow> le b c \<Longrightarrow> le a c"
    and cmp: "\<And>a b. (cmp a b \<le> 0) = le a b"
  shows "sorted_wrt le (sort_cmp cmp as)"
proof (induction as)
  case Nil
  show ?case by (simp add: sort_cmp_def)
next
  case (Cons a as)
  from sorted_wrt_insort_cmp[of le cmp, OF total trans cmp Cons]
  show ?case by (simp add: sort_cmp_def)
qed


subsection \<open>What forEach writes\<close>

lemma forEach_init_outside:
  "a \<notin> set as \<Longrightarrow> forEach_init rnd w h i as st a = st a"
  by (induction as arbitrary: i st) auto

lemma forEach_init_nth:
  "distinct as \<Longrightarrow> j < length as \<Longrightarrow>
   forEach_init rnd w h i as st (as ! j) = init_site rnd w h (i + j) (st (as ! j))"
proof (induction as arbitrary: i st j)
  case Nil
  then show ?case by simp
next
  case (Cons a as)
  show ?case
  proof (cases j)
    case 0
    with Cons.prems show ?thesis by (simp add: forEach_init_outside)
  next
    case (Suc k)
    with Cons.prems have k: "k < length as" and ne: "as ! k \<noteq> a" by auto
    from Cons.prems have "distinct as" by simp
    from Cons.IH[OF this k, of "Suc i"] ne Suc show ?thesis by simp
  qed
qed

lemma make_links_ring:
  assumes "distinct ss"
  shows "make_links (forEach_init rnd w h 0 ss st) ss =
         map (\<lambda>i. \<lparr> source = Some (node_id i), target = Some (node_id ((i + 1) mod length ss)) \<rparr>)
             [0 ..< length ss]"
  unfolding make_links_def
proof (rule map_cong[OF refl])
  fix i assume "i \<in> set [0 ..< length ss]"
  then have i: "i < length ss" by simp
  then have "0 < length ss" by (cases ss) simp_all
  then have j: "(i + 1) mod length ss < length ss" by (rule mod_less_divisor)
  show "\<lparr> source = id_site (forEach_init rnd w h 0 ss st (ss ! i)),
          target = id_site (forEach_init rnd w h 0 ss st (ss ! ((i + 1) mod length ss))) \<rparr> =
        \<lparr> source = Some (node_id i), target = Some (node_id ((i + 1) mod length ss)) \<rparr>"
    by (simp add: forEach_init_nth[OF assms i] forEach_init_nth[OF assms j] init_site_def
        del: One_nat_def)
qed

subsection \<open>What the creation of the engine writes\<close>

lemma initialize_node_keeps:
  "website (initialize_node i s) = website s" "name (initialize_node i s) = name s"
  "id_site (initialize_node i s) = id_site s" "program (initialize_node i s) = program s"
  "year (initialize_node i s) = year s" "fx (initialize_node i s) = fx s"
  "fy (initialize_node i s) = fy s"
  by (simp_all add: initialize_node_def Let_def split: option.split)


lemma initializeNodes_outside:
  "a \<notin> set as \<Longrightarrow> initializeNodes i as st a = st a"
  by (induction as arbitrary: i st) auto

lemma initializeNodes_nth:
  "distinct as \<Longrightarrow> j < length as \<Longrightarrow>
   initializeNodes i as st (as ! j) = initialize_node (i + j) (st (as ! j))"
proof (induction as arbitrary: i st j)
  case Nil
  then show ?case by simp
next
  case (Cons a as)
  show ?case
  proof (cases j)
    case 0
    with Cons.prems show ?thesis by (simp add: initializeNodes_outside)
  next
    case (Suc k)
    with Cons.prems have k: "k < length as" and ne: "as ! k \<noteq> a" by auto
    from Cons.prems have "distinct as" by simp
    from Cons.IH[OF this k, of "Suc i"] ne Suc show ?thesis by simp
  qed
qed

subsection \<open>The ring\<close>

lemma filter_eq_upt: "j < n \<Longrightarrow> filter (\<lambda>i. i = j) [0 ..< n] = [j]"
  by (induction n) (auto simp: less_Suc_eq)

lemma filter_source_ring:
  "j < n \<Longrightarrow> filter (\<lambda>l. source l = Some (node_id j)) (ring n) =
     [\<lparr> source = Some (node_id j), target = Some (node_id ((j + 1) mod n)) \<rparr>]"
  by (simp add: ring_def filter_map comp_def inj_eq[OF inj_node_id] filter_eq_upt del: One_nat_def)

lemma succ_mod_eq_iff:
  assumes "(i::nat) < n" "j < n"
  shows "((i + 1) mod n = j) = (i = (j + n - 1) mod n)"
proof (cases "Suc i < n")
  case True
  then have l: "(i + 1) mod n = Suc i" by simp
  show ?thesis
  proof (cases j)
    case 0
    with True l assms show ?thesis by simp
  next
    case (Suc k)
    with assms have "(j + n - 1) mod n = k" by simp
    with l Suc show ?thesis by auto
  qed
next
  case False
  with assms have n: "n = Suc i" by simp
  then have l: "(i + 1) mod n = 0" by simp
  show ?thesis
  proof (cases j)
    case 0
    with n l show ?thesis by simp
  next
    case (Suc k)
    with assms have "(j + n - 1) mod n = k" by simp
    with l Suc n assms show ?thesis by auto
  qed
qed

lemma filter_target_ring:
  assumes "j < n"
  shows "filter (\<lambda>l. target l = Some (node_id j)) (ring n) =
     [\<lparr> source = Some (node_id ((j + n - 1) mod n)), target = Some (node_id j) \<rparr>]"
proof -
  have p: "(j + n - 1) mod n < n" using assms by simp
  have "filter (\<lambda>i. (i + 1) mod n = j) [0 ..< n] = filter (\<lambda>i. i = (j + n - 1) mod n) [0 ..< n]"
    by (rule filter_cong[OF refl]) (simp add: succ_mod_eq_iff[OF _ assms] del: One_nat_def)
  also have "\<dots> = [(j + n - 1) mod n]" by (rule filter_eq_upt[OF p])
  finally have f: "filter (\<lambda>i. (i + 1) mod n = j) [0 ..< n] = [(j + n - 1) mod n]" .
  have bk: "((j + n - 1) mod n + 1) mod n = j"
    using succ_mod_eq_iff[OF p assms] by simp
  show ?thesis
    by (simp add: ring_def filter_map comp_def inj_eq[OF inj_node_id] f bk del: One_nat_def)
qed

lemma degree_ring: "j < n \<Longrightarrow> degree (ring n) (Some (node_id j)) = 2"
  by (simp add: degree_def filter_source_ring filter_target_ring)

lemma successor_ring:
  "j < n \<Longrightarrow> successor (ring n) (Some (node_id j)) = Some (Some (node_id ((j + 1) mod n)))"
  by (simp add: successor_def filter_source_ring)

lemma walk_ring: "0 < n \<Longrightarrow> walk (ring n) (Some (node_id 0)) k = Some (Some (node_id (k mod n)))"
proof (induction k)
  case 0
  then show ?case by simp
next
  case (Suc k)
  then have "k mod n < n" by simp
  from successor_ring[OF this] Suc show ?case by (simp add: mod_Suc_eq)
qed

lemma walk_ring_back:
  "0 < n \<Longrightarrow> (walk (ring n) (Some (node_id 0)) k = Some (Some (node_id 0))) = (n dvd k)"
  by (simp add: walk_ring inj_eq[OF inj_node_id] mod_eq_0_iff_dvd)


subsection \<open>The layout the setup builds\<close>

lemma setup_layout_SomeD:
  assumes "setup_layout h containerRef data sortField sortDirection st = Some L"
  shows "\<exists>cont wd. containerRef = Some cont \<and> data = Some wd \<and> sites wd \<noteq> [] \<and>
           L = build_layout h cont wd sortField sortDirection st"
  using assms by (auto simp: setup_layout_def split: option.splits if_splits)

lemma sortedSites_build:
  "sortedSites (build_layout h cont wd sf sd st) =
     sort_cmp (\<lambda>a b. compareSites h sf sd (st a) (st b)) (sites wd)"
  by (simp add: build_layout_def Let_def)

lemma heap_build:
  "heap (build_layout h cont wd sf sd st) =
     initializeNodes 0 (sortedSites (build_layout h cont wd sf sd st))
       (forEach_init (random h) (real (clientWidth cont)) (real (clientHeight cont)) 0
          (sortedSites (build_layout h cont wd sf sd st)) st)"
  by (simp add: build_layout_def Let_def)

lemma links_build:
  "links (build_layout h cont wd sf sd st) =
     make_links
       (forEach_init (random h) (real (clientWidth cont)) (real (clientHeight cont)) 0
          (sortedSites (build_layout h cont wd sf sd st)) st)
       (sortedSites (build_layout h cont wd sf sd st))"
  by (simp add: build_layout_def Let_def)

lemma links_build_ring:
  assumes "distinct (sites wd)"
  shows "links (build_layout h cont wd sf sd st) = ring (length (sites wd))"
proof -
  have d: "distinct (sortedSites (build_layout h cont wd sf sd st))"
    by (simp add: sortedSites_build distinct_sort_cmp assms)
  have l: "length (sortedSites (build_layout h cont wd sf sd st)) = length (sites wd)"
    by (simp add: sortedSites_build length_sort_cmp)
  show ?thesis
    unfolding links_build make_links_ring[OF d] l ring_def ..
qed

lemma id_site_build:
  assumes "distinct (sites wd)" and "i < length (sites wd)"
  shows "id_site (heap (build_layout h cont wd sf sd st) (sortedSites (build_layout h cont wd sf sd st) ! i))
           = Some (node_id i)"
proof -
  have d: "distinct (sortedSites (build_layout h cont wd sf sd st))"
    by (simp add: sortedSites_build distinct_sort_cmp assms)
  have l: "i < length (sortedSites (build_layout h cont wd sf sd st))"
    by (simp add: sortedSites_build length_sort_cmp assms)
  show ?thesis
    unfolding heap_build
    by (simp add: initializeNodes_nth[OF d l] initialize_node_keeps forEach_init_nth[OF d l]
        init_site_def)
qed

lemma nth_ring:
  "i < n \<Longrightarrow> ring n ! i = \<lparr> source = Some (node_id i), target = Some (node_id ((i + 1) mod n)) \<rparr>"
  by (simp add: ring_def del: One_nat_def)




lemma circles_build:
  "map datum (circles (build_layout h cont wd sf sd st)) = sortedSites (build_layout h cont wd sf sd st)"
  by (simp add: build_layout_def Let_def comp_def)

lemma sortedSites_example: "sortedSites example_layout = [1, 2, 0]"
  by code_simp

lemma setup_layout_example:
  "setup_layout example_host (Some example_container) (Some (WebringData [0, 1, 2])) (Some Name)
     (Some Asc) example_store = Some example_layout"
  by (simp add: setup_layout_def example_layout_def)

subsection \<open>The comparator and the key order\<close>

lemma compareSites_asc: "(compareSites h (Some f) (Some Asc) a b \<le> 0) = key_le h f a b"
  by (cases f) (simp_all add: compareSites_def sortValues_def key_le_def)

lemma compareSites_desc:
  "compareSites h (Some f) (Some Desc) a b = compareSites h (Some f) (Some Asc) b a"
  by (cases f) (simp_all add: compareSites_def sortValues_def)

lemma key_le_total:
  assumes "\<forall>s t. localeCompare h s t \<le> 0 \<or> localeCompare h t s \<le> 0"
  shows "key_le h f a b \<or> key_le h f b a"
proof (cases f)
  case Name
  with assms show ?thesis by (simp add: key_le_def)
next
  case Program
  with assms show ?thesis by (simp add: key_le_def)
next
  case Year
  then show ?thesis by (simp add: key_le_def) linarith
qed

lemma key_le_trans:
  assumes "\<forall>s t u. localeCompare h s t \<le> 0 \<longrightarrow> localeCompare h t u \<le> 0 \<longrightarrow> localeCompare h s u \<le> 0"
    and "key_le h f a b" and "key_le h f b c"
  shows "key_le h f a c"
proof (cases f)
  case Name
  with assms(2,3) assms(1)[rule_format, of "toLowerCase h (name a)" "toLowerCase h (name b)"
      "toLowerCase h (name c)"]
  show ?thesis by (simp add: key_le_def)
next
  case Program
  with assms(2,3) assms(1)[rule_format, of "toLowerCase h (program a)" "toLowerCase h (program b)"
      "toLowerCase h (program c)"]
  show ?thesis by (simp add: key_le_def)
next
  case Year
  with assms(2,3) show ?thesis by (simp add: key_le_def)
qed

lemma forEach_init_keeps_keys:
  "name (forEach_init rnd w h i as st a) = name (st a) \<and>
   program (forEach_init rnd w h i as st a) = program (st a) \<and>
   year (forEach_init rnd w h i as st a) = year (st a)"
  by (induction as arbitrary: i st) (simp_all add: init_site_def)

lemma initializeNodes_keeps_keys:
  "name (initializeNodes i as st a) = name (st a) \<and>
   program (initializeNodes i as st a) = program (st a) \<and>
   year (initializeNodes i as st a) = year (st a)"
  by (induction as arbitrary: i st) (simp_all add: initialize_node_keeps)

lemma key_le_build:
  "key_le h f (heap (build_layout h cont wd sf sd st) p) (heap (build_layout h cont wd sf sd st) q) =
   key_le h f (st p) (st q)"
  unfolding heap_build
  by (cases f) (simp_all add: key_le_def initializeNodes_keeps_keys forEach_init_keeps_keys)

subsection \<open>What the events leave alone\<close>

lemma map_datum_fill_update:
  "i < length cs \<Longrightarrow> map datum (cs[i := (cs ! i)\<lparr> fill := c \<rparr>]) = map datum cs"
  by (simp add: map_update list_update_same_conv)

lemma step_frame:
  "sortedSites (step e L) = sortedSites L \<and> map datum (circles (step e L)) = map datum (circles L)"
  by (cases e)
     (simp_all add: tick_def on_tick_def animationFrame_def updateDOM_def Let_def dragstart_def
        dragging_def dragend_def mouseenter_def mouseleave_def map_datum_fill_update)

lemma run_frame:
  "sortedSites (run es L) = sortedSites L \<and> map datum (circles (run es L)) = map datum (circles L)"
  by (induction es arbitrary: L) (simp_all add: step_frame)

lemma heap_dragstart:
  "heap (dragstart e L) =
     (heap L)(subject e := (heap L (subject e))\<lparr> fx := x (heap L (subject e)), fy := y (heap L (subject e)) \<rparr>)"
  by (simp add: dragstart_def Let_def)

lemma heap_dragging:
  "heap (dragging e L) =
     (heap L)(subject e := (heap L (subject e))\<lparr> fx := Some (event_x e), fy := Some (event_y e) \<rparr>)"
  by (simp add: dragging_def)

lemma heap_dragend:
  "heap (dragend e L) = (heap L)(subject e := (heap L (subject e))\<lparr> fx := None, fy := None \<rparr>)"
  by (simp add: dragend_def Let_def)


lemma integrate_keeps:
  "name (integrate d s) = name s \<and> program (integrate d s) = program s \<and>
   year (integrate d s) = year s \<and> fx (integrate d s) = fx s \<and> fy (integrate d s) = fy s"
  by (simp add: integrate_def Let_def split: prod.split)

lemma after_forces_keeps:
  "name (after_forces F st a) = name (st a) \<and> program (after_forces F st a) = program (st a) \<and>
   year (after_forces F st a) = year (st a) \<and> fx (after_forces F st a) = fx (st a) \<and>
   fy (after_forces F st a) = fy (st a)"
  by (simp add: after_forces_def)

lemma heap_tick:
  "heap (tick F L) a =
     (if a \<in> set (sortedSites L)
      then integrate (1 - velocityDecay (sim L)) (after_forces F (heap L) a)
      else heap L a)"
  by (simp add: tick_def on_tick_def)

lemma heap_animationFrame: "heap (animationFrame L) = heap L"
  by (simp add: animationFrame_def updateDOM_def Let_def)

lemma heap_mouse: "heap (mouseenter i L) = heap L" "heap (mouseleave i L) = heap L"
  by (simp_all add: mouseenter_def mouseleave_def)

lemma step_keeps_keys:
  "name (heap (step e L) a) = name (heap L a) \<and> program (heap (step e L) a) = program (heap L a)"
  by (cases e)
     (simp_all add: heap_tick integrate_keeps after_forces_keeps heap_animationFrame heap_mouse
        heap_dragstart heap_dragging heap_dragend)

lemma run_keeps_keys:
  "name (heap (run es L) a) = name (heap L a) \<and> program (heap (run es L) a) = program (heap L a)"
  by (induction es arbitrary: L) (simp_all add: step_keeps_keys)

lemma build_keeps_keys:
  "name (heap (build_layout h cont wd sf sd st) a) = name (st a) \<and>
   program (heap (build_layout h cont wd sf sd st) a) = program (st a)"
  unfolding heap_build by (simp add: initializeNodes_keeps_keys forEach_init_keeps_keys)

lemma circles_highlightEffect:
  "circles (highlightEffect (Some cont) hoveredProgram hoveredSite L) =
     map (\<lambda>c. c\<lparr> fill := highlight_fill getConfig hoveredProgram hoveredSite (heap L (datum c)) \<rparr>)
       (circles L)"
  by (simp add: highlightEffect_def)

subsection \<open>The frame-to-fit flag\<close>

lemma updateDOM_zoom_applied:
  "initialZoomApplied L \<Longrightarrow>
   initialZoomApplied (updateDOM L) \<and> zoomTransitions (updateDOM L) = zoomTransitions L"
  by (simp add: updateDOM_def Let_def)

lemma step_zoom_applied:
  "initialZoomApplied L \<Longrightarrow>
   initialZoomApplied (step e L) \<and> zoomTransitions (step e L) = zoomTransitions L"
  by (cases e)
     (simp_all add: tick_def on_tick_def animationFrame_def updateDOM_zoom_applied dragstart_def
        dragging_def dragend_def mouseenter_def mouseleave_def Let_def)

lemma run_zoom_applied:
  "initialZoomApplied L \<Longrightarrow>
   initialZoomApplied (run es L) \<and> zoomTransitions (run es L) = zoomTransitions L"
  by (induction es arbitrary: L) (simp_all add: step_zoom_applied)

lemma build_zoom:
  "initialZoomApplied (build_layout h cont wd sf sd st) \<and>
   zoomTransitions (build_layout h cont wd sf sd st) = []"
  by (simp add: build_layout_def Let_def)

lemma frame_to_fit_never_fires:
  assumes "setup_layout h containerRef data sortField sortDirection st = Some L"
  shows "zoomTransitions (run es L) = []"
proof -
  from setup_layout_SomeD[OF assms] obtain c0 wd
    where L: "L = build_layout h c0 wd sortField sortDirection st"
    by auto
  from run_zoom_applied[of L es] build_zoom[of h c0 wd sortField sortDirection st]
  show ?thesis by (simp add: L)
qed

subsection \<open>The energy\<close>

lemma sim_step:
  "sim (step e L) =
     (case e of
        Tick F \<Rightarrow> decay_alpha (sim L)
      | DragStart ev \<Rightarrow> (if active ev = 0 then (sim L)\<lparr> alphaTarget := 0.3 \<rparr> else sim L)
      | DragEnd ev \<Rightarrow> (if active ev = 0 then (sim L)\<lparr> alphaTarget := 0 \<rparr> else sim L)
      | _ \<Rightarrow> sim L)"
  by (cases e)
     (simp_all add: tick_def on_tick_def animationFrame_def updateDOM_def dragstart_def
        dragging_def dragend_def mouseenter_def mouseleave_def Let_def)

lemma energy_inv_decay:
  assumes "energy_inv s"
  shows "energy_inv (decay_alpha s)"
proof -
  from assms have a: "0 < alpha s" "alpha s \<le> 1" and d: "alphaDecay s = 1 / 50"
    and t: "alphaTarget s = 0 \<or> alphaTarget s = 3 / 10"
    by (simp_all add: energy_inv_def)
  have eq: "alpha (decay_alpha s) = alpha s + (alphaTarget s - alpha s) * (1 / 50)"
    by (simp add: decay_alpha_def d)
  from t a have "0 < alpha s + (alphaTarget s - alpha s) * (1 / 50) \<and>
                 alpha s + (alphaTarget s - alpha s) * (1 / 50) \<le> 1"
    by (elim disjE) (simp_all add: field_simps)
  with assms show ?thesis
    unfolding eq energy_inv_def by (simp add: decay_alpha_def)
qed

lemma energy_inv_step: "energy_inv (sim L) \<Longrightarrow> energy_inv (sim (step e L))"
  unfolding sim_step
  by (cases e) (simp_all add: energy_inv_decay, simp_all add: energy_inv_def)

lemma energy_inv_run: "energy_inv (sim L) \<Longrightarrow> energy_inv (sim (run es L))"
  by (induction es arbitrary: L) (simp_all add: energy_inv_step)

lemma sim_build: "sim (build_layout h cont wd sf sd st) = forceSimulation getConfig"
  by (simp add: build_layout_def Let_def)

lemma energy_inv_build: "energy_inv (sim (build_layout h cont wd sf sd st))"
  by (simp add: sim_build energy_inv_def forceSimulation_def getConfig_def)

lemma decay_alpha_le:
  "energy_inv s \<Longrightarrow> alphaTarget s = 0 \<Longrightarrow> alpha (decay_alpha s) \<le> alpha s"
  by (simp add: energy_inv_def decay_alpha_def)

lemma sim_tick: "sim (tick F L) = decay_alpha (sim L)"
  by (simp add: tick_def on_tick_def)

lemma alpha_after_ticks:
  assumes "alphaTarget (sim L) = 0" and "alphaDecay (sim L) = 1 / 50"
  shows "alpha (sim (run (replicate n (Tick F)) L)) = alpha (sim L) * (49 / 50) ^ n \<and>
         alphaTarget (sim (run (replicate n (Tick F)) L)) = 0 \<and>
         alphaDecay (sim (run (replicate n (Tick F)) L)) = 1 / 50"
  using assms
proof (induction n arbitrary: L)
  case 0
  then show ?case by simp
next
  case (Suc n)
  have s: "sim (tick F L) = decay_alpha (sim L)" by (rule sim_tick)
  have "alphaTarget (sim (tick F L)) = 0" "alphaDecay (sim (tick F L)) = 1 / 50"
    "alpha (sim (tick F L)) = alpha (sim L) * (49 / 50)"
    using Suc.prems by (simp_all add: s decay_alpha_def)
  with Suc.IH[of "tick F L"] show ?case by simp
qed

lemma pow_lt_half: "(49 / 50 :: real) ^ 40 < 1 / 2"
  by (simp add: power_divide)

subsection \<open>The fixed override\<close>

lemma step_override:
  "keeps_drag a e \<Longrightarrow>
   (fx (heap (step e L) a), fy (heap (step e L) a)) =
     override_after a e (fx (heap L a), fy (heap L a))"
  by (cases e)
     (simp_all add: heap_tick integrate_keeps after_forces_keeps heap_animationFrame heap_mouse
        heap_dragstart heap_dragging heap_dragend)

lemma run_override:
  "\<forall>e \<in> set es. keeps_drag a e \<Longrightarrow>
   (fx (heap (run es L) a), fy (heap (run es L) a)) =
     pointer_override a (fx (heap L a), fy (heap L a)) es"
  by (induction es arbitrary: L) (simp_all add: step_override)

lemma pointer_override_defined:
  "\<exists>p q. pointer_override a (Some p0, Some q0) es = (Some p, Some q)"
proof (induction es arbitrary: p0 q0)
  case Nil
  show ?case by simp
next
  case (Cons e es)
  have "\<exists>p q. override_after a e (Some p0, Some q0) = (Some p, Some q)"
    by (cases e) simp_all
  with Cons show ?case by auto
qed

lemma integrate_pinned:
  "fx s = Some p \<Longrightarrow> x (integrate d s) = Some p"
  "fy s = Some q \<Longrightarrow> y (integrate d s) = Some q"
  by (simp_all add: integrate_def integrate_axis_def Let_def split: prod.split option.split)

lemma tick_pinned:
  assumes "a \<in> set (sortedSites L)"
  shows "fx (heap L a) = Some p \<Longrightarrow> x (heap (tick F L) a) = Some p"
    and "fy (heap L a) = Some q \<Longrightarrow> y (heap (tick F L) a) = Some q"
    and "fx (heap (tick F L) a) = fx (heap L a)"
    and "fy (heap (tick F L) a) = fy (heap L a)"
  using assms by (simp_all add: heap_tick integrate_pinned integrate_keeps after_forces_keeps)

lemma position_example: "x (heap example_layout 1) = Some 400" "y (heap example_layout 1) = Some 300"
  by code_simp+

subsection \<open>The scale of the frame-to-fit\<close>

lemma initialScale_antimono:
  assumes "0 < m" and "m \<le> n"
  shows "initialScale n \<le> initialScale m"
proof -
  from assms have "0 < sqrt (real m / 20)" and "sqrt (real m / 20) \<le> sqrt (real n / 20)"
    by simp_all
  then have "1 / sqrt (real n / 20) \<le> 1 / sqrt (real m / 20)"
    by (simp add: frac_le)
  then show ?thesis
    unfolding initialScale_def by (rule max.mono[OF order_refl])
qed

lemma clamp_scale_mono: "k \<le> k' \<Longrightarrow> clamp_scale conf k \<le> clamp_scale conf k'"
  unfolding clamp_scale_def by (intro max.mono min.mono order_refl)

lemma clamp_scale_range:
  "zoom_minScale getConfig \<le> clamp_scale getConfig k \<and> clamp_scale getConfig k \<le> zoom_maxScale getConfig"
  by (simp add: clamp_scale_def getConfig_def)

lemma initialScale_3: "2 \<le> initialScale 3"
proof -
  have "sqrt (3 / 20) \<le> sqrt (1 / 4)" by simp
  also have "sqrt (1 / 4) = 1 / 2" by (simp add: real_sqrt_divide)
  finally have "sqrt (3 / 20) \<le> 1 / 2" .
  moreover have "0 < sqrt (3 / 20 :: real)" by simp
  ultimately have "2 \<le> 1 / sqrt (3 / 20 :: real)"
    by (simp add: field_simps)
  then show ?thesis by (simp add: initialScale_def)
qed

subsection \<open>The claims\<close>

text \<open>
  C1 (the code at a concrete input). The layout of the three sample sites ticks
  40 times with no drag: the energy is then below 0.5, and neither the draw
  itself nor the animation frame after the ticks requests a camera transition.
  The flag of line 240 starts as true, so the guard of line 260 never holds.
\<close>

theorem frame_to_fit_does_not_fire:
  "alpha (sim (run (replicate 40 (Tick id)) example_layout)) < 0.5 \<and>
   zoomTransitions (updateDOM (run (replicate 40 (Tick id)) example_layout)) = [] \<and>
   zoomTransitions (run (replicate 40 (Tick id) @ [AnimationFrame]) example_layout) = []"
proof -
  have t: "alphaTarget (sim example_layout) = 0" and d: "alphaDecay (sim example_layout) = 1 / 50"
    and a: "alpha (sim example_layout) = 1"
    by (simp_all add: example_layout_def sim_build forceSimulation_def getConfig_def)
  from alpha_after_ticks[OF t d, of 40 id] a pow_lt_half
  have 1: "alpha (sim (run (replicate 40 (Tick id)) example_layout)) < 0.5"
    by simp
  have z: "initialZoomApplied example_layout" "zoomTransitions example_layout = []"
    by (simp_all add: example_layout_def build_zoom)
  from run_zoom_applied[OF z(1), of "replicate 40 (Tick id)"] z(2)
  have 2: "zoomTransitions (updateDOM (run (replicate 40 (Tick id)) example_layout)) = []"
    by (simp add: updateDOM_zoom_applied)
  from 1 2 frame_to_fit_never_fires[OF setup_layout_example, of "replicate 40 (Tick id) @ [AnimationFrame]"]
  show ?thesis by (intro conjI)
qed

text \<open>
  C2. For every input list of N >= 2 site records (N different objects), the
  build keeps the N records, gives the record at sorted position i the id
  node-i, and produces exactly N links, link i from node i to node (i + 1) mod N.
  The ids are pairwise different, every node has degree exactly 2, and the walk
  along the links from node 0 is at node k mod N after k steps: it visits every
  node and is back at its start exactly at the multiples of N, so the links form
  one cycle through all nodes and no shorter one.
\<close>

theorem ring_topology:
  assumes "setup_layout h containerRef (Some (WebringData ss0)) sortField sortDirection st = Some L"
    and "distinct ss0" and "2 \<le> length ss0"
  shows "mset (sortedSites L) = mset ss0 \<and>
         (\<forall>i < length ss0. id_site (heap L (sortedSites L ! i)) = Some (node_id i)) \<and>
         (\<forall>i < length ss0. \<forall>j < length ss0. (node_id i = node_id j) = (i = j)) \<and>
         length (links L) = length ss0 \<and>
         (\<forall>i < length ss0. links L ! i =
            \<lparr> source = Some (node_id i), target = Some (node_id ((i + 1) mod length ss0)) \<rparr>) \<and>
         (\<forall>i < length ss0. degree (links L) (Some (node_id i)) = 2) \<and>
         (\<forall>k. walk (links L) (Some (node_id 0)) k = Some (Some (node_id (k mod length ss0)))) \<and>
         (\<forall>k. (walk (links L) (Some (node_id 0)) k = Some (Some (node_id 0))) = (length ss0 dvd k))"
proof -
  from setup_layout_SomeD[OF assms(1)] obtain cont
    where L: "L = build_layout h cont (WebringData ss0) sortField sortDirection st"
    by auto
  have d: "distinct (sites (WebringData ss0))" using assms(2) by simp
  have n: "0 < length ss0" using assms(3) by (cases ss0) simp_all
  have lk: "links L = ring (length ss0)"
    unfolding L using links_build_ring[OF d] by simp
  have 1: "mset (sortedSites L) = mset ss0"
    unfolding L by (simp add: sortedSites_build mset_sort_cmp)
  have 2: "\<forall>i < length ss0. id_site (heap L (sortedSites L ! i)) = Some (node_id i)"
    unfolding L using id_site_build[OF d] by simp
  have 3: "\<forall>i < length ss0. \<forall>j < length ss0. (node_id i = node_id j) = (i = j)"
    by (simp add: inj_eq[OF inj_node_id])
  have 4: "length (links L) = length ss0"
    unfolding lk by (simp add: ring_def)
  have 5: "\<forall>i < length ss0. links L ! i =
            \<lparr> source = Some (node_id i), target = Some (node_id ((i + 1) mod length ss0)) \<rparr>"
    unfolding lk by (simp add: nth_ring del: One_nat_def)
  have 6: "\<forall>i < length ss0. degree (links L) (Some (node_id i)) = 2"
    unfolding lk by (simp add: degree_ring)
  have 7: "\<forall>k. walk (links L) (Some (node_id 0)) k = Some (Some (node_id (k mod length ss0)))"
    unfolding lk by (simp add: walk_ring[OF n])
  have 8: "\<forall>k. (walk (links L) (Some (node_id 0)) k = Some (Some (node_id 0))) = (length ss0 dvd k)"
    unfolding lk by (simp add: walk_ring_back[OF n])
  from 1 2 3 4 5 6 7 8 show ?thesis by (intro conjI)
qed

theorem ring_topology_witness:
  "setup_layout example_host (Some example_container) (Some (WebringData [0, 1, 2])) (Some Name)
     (Some Asc) example_store = Some example_layout \<and>
   length (links example_layout) = 3 \<and>
   links example_layout ! 2 = \<lparr> source = Some (node_id 2), target = Some (node_id 0) \<rparr> \<and>
   degree (links example_layout) (Some (node_id 1)) = 2 \<and>
   walk (links example_layout) (Some (node_id 0)) 3 = Some (Some (node_id 0))"
proof -
  have d: "distinct [0, 1, 2 :: nat]" and n: "2 \<le> length [0, 1, 2 :: nat]" by simp_all
  from ring_topology[OF setup_layout_example d n] setup_layout_example
  show ?thesis by simp
qed

text \<open>
  C3 (as the code has it). For an input list with exactly one site record the
  build produces a single node, with id node-0, and exactly one link: the
  self-loop from node-0 to node-0. The map of lines 160-163 makes one link per
  record and has no case for a single record.
\<close>

theorem single_site_self_loop:
  "\<exists>L. setup_layout h (Some cont) (Some (WebringData [a])) sortField sortDirection st = Some L \<and>
       sortedSites L = [a] \<and>
       id_site (heap L a) = Some ''node-0'' \<and>
       links L = [\<lparr> source = Some ''node-0'', target = Some ''node-0'' \<rparr>] \<and>
       length (links L) = 1"
proof -
  have 0: "node_id 0 = ''node-0''"
    by code_simp
  have s: "setup_layout h (Some cont) (Some (WebringData [a])) sortField sortDirection st =
           Some (build_layout h cont (WebringData [a]) sortField sortDirection st)"
    by (simp add: setup_layout_def)
  have ss: "sortedSites (build_layout h cont (WebringData [a]) sortField sortDirection st) = [a]"
    by (simp add: sortedSites_build sort_cmp_def)
  have lk: "links (build_layout h cont (WebringData [a]) sortField sortDirection st) =
            [\<lparr> source = Some ''node-0'', target = Some ''node-0'' \<rparr>]"
    using links_build_ring[of "WebringData [a]" h cont sortField sortDirection st]
    by (simp add: ring_def 0)
  have i: "id_site (heap (build_layout h cont (WebringData [a]) sortField sortDirection st) a) = Some ''node-0''"
    using id_site_build[of "WebringData [a]" 0 h cont sortField sortDirection st]
    by (simp add: ss 0)
  from s ss lk i show ?thesis by simp
qed

text \<open>
  C3 (as stated) fails: for the one-record list at address 0 of the sample store
  the setup builds one node and the number of links is not zero.
\<close>

theorem single_site_zero_edges_counterexample:
  "setup_layout example_host (Some example_container) (Some (WebringData [0])) None None
     example_store = Some example_single \<and>
   length (sortedSites example_single) = 1 \<and>
   length (links example_single) \<noteq> 0"
proof -
  have d: "distinct (sites (WebringData [0]))" by simp
  have "links example_single = ring 1"
    unfolding example_single_def using links_build_ring[OF d] by simp
  then show ?thesis
    by (simp add: setup_layout_def example_single_def sortedSites_build length_sort_cmp ring_def)
qed

text \<open>
  C4. From the state the setup creates (energy 1), along every trace of ticks,
  frames, drags and hovers, the energy stays strictly above 0 and at most its
  initial value; and whenever the energy target is 0 (no drag is active), a tick
  does not increase the energy.
\<close>

theorem energy_bounded_and_decaying:
  assumes "setup_layout h containerRef data sortField sortDirection st = Some L"
  shows "alpha (sim L) = 1 \<and>
         (\<forall>es. 0 < alpha (sim (run es L)) \<and> alpha (sim (run es L)) \<le> alpha (sim L)) \<and>
         (\<forall>es F. alphaTarget (sim (run es L)) = 0 \<longrightarrow>
            alpha (sim (step (Tick F) (run es L))) \<le> alpha (sim (run es L)))"
proof -
  from setup_layout_SomeD[OF assms] obtain c0 wd
    where L: "L = build_layout h c0 wd sortField sortDirection st"
    by auto
  have i: "energy_inv (sim L)" unfolding L by (rule energy_inv_build)
  have 1: "alpha (sim L) = 1"
    unfolding L by (simp add: sim_build forceSimulation_def)
  have 2: "\<forall>es. 0 < alpha (sim (run es L)) \<and> alpha (sim (run es L)) \<le> alpha (sim L)"
    using energy_inv_run[OF i] by (simp add: energy_inv_def 1)
  have 3: "\<forall>es F. alphaTarget (sim (run es L)) = 0 \<longrightarrow>
            alpha (sim (step (Tick F) (run es L))) \<le> alpha (sim (run es L))"
    using decay_alpha_le[OF energy_inv_run[OF i]] by (simp add: sim_tick)
  from 1 2 3 show ?thesis by (intro conjI)
qed

theorem energy_bounded_and_decaying_witness:
  "0 < alpha (sim (run [DragStart \<lparr> active = 0, subject = 1, event_x = 5, event_y = 5 \<rparr>,
                        Tick id, AnimationFrame] example_layout)) \<and>
   alpha (sim (run [DragStart \<lparr> active = 0, subject = 1, event_x = 5, event_y = 5 \<rparr>,
                    Tick id, AnimationFrame] example_layout)) \<le> 1 \<and>
   alpha (sim (step (Tick id) example_layout)) \<le> alpha (sim example_layout)"
proof -
  note t = energy_bounded_and_decaying[OF setup_layout_example]
  have z: "alphaTarget (sim (run [] example_layout)) = 0"
    by (simp add: example_layout_def sim_build forceSimulation_def)
  from t have 1: "alpha (sim example_layout) = 1" by blast
  from t have 2: "\<forall>es. 0 < alpha (sim (run es example_layout)) \<and>
      alpha (sim (run es example_layout)) \<le> alpha (sim example_layout)" by blast
  from t have 3: "\<forall>es F. alphaTarget (sim (run es example_layout)) = 0 \<longrightarrow>
            alpha (sim (step (Tick F) (run es example_layout))) \<le> alpha (sim (run es example_layout))"
    by blast
  from 3[rule_format, OF z, of id] have c: "alpha (sim (step (Tick id) example_layout)) \<le> alpha (sim example_layout)"
    by simp
  from 2[rule_format, of "[DragStart \<lparr> active = 0, subject = 1, event_x = 5, event_y = 5 \<rparr>,
                        Tick id, AnimationFrame]"] 1 c
  show ?thesis by (simp only: simp_thms)
qed

text \<open>
  C5. Let the drag of a node of the simulation start, its position being known.
  The drag start sets the override to that position. After any events that
  neither start nor end this node's drag (ticks with any forces, drag moves,
  frames, hovers, drags of other nodes), the override is the pointer's last
  drag-move coordinates, or the start position when there was no move; and after
  the next tick, whatever the forces do, the node's position is that override and
  the override stands. The drag end clears the override and leaves the position
  and the velocity as they are.
\<close>

theorem dragged_node_follows_pointer:
  assumes "a \<in> set (sortedSites L)"
    and "subject e0 = a"
    and "x (heap L a) = Some p0" and "y (heap L a) = Some q0"
    and "\<forall>e \<in> set es. keeps_drag a e"
    and "D = run es (dragstart e0 L)"
  shows "fx (heap (dragstart e0 L) a) = Some p0 \<and> fy (heap (dragstart e0 L) a) = Some q0 \<and>
         (fx (heap D a), fy (heap D a)) = pointer_override a (Some p0, Some q0) es \<and>
         fx (heap D a) \<noteq> None \<and> fy (heap D a) \<noteq> None \<and>
         (\<forall>F. x (heap (tick F D) a) = fx (heap D a) \<and> y (heap (tick F D) a) = fy (heap D a) \<and>
              fx (heap (tick F D) a) = fx (heap D a) \<and> fy (heap (tick F D) a) = fy (heap D a)) \<and>
         (\<forall>e. subject e = a \<longrightarrow>
              fx (heap (dragend e D) a) = None \<and> fy (heap (dragend e D) a) = None \<and>
              x (heap (dragend e D) a) = x (heap D a) \<and> y (heap (dragend e D) a) = y (heap D a) \<and>
              vx (heap (dragend e D) a) = vx (heap D a) \<and> vy (heap (dragend e D) a) = vy (heap D a))"
proof -
  have s: "fx (heap (dragstart e0 L) a) = Some p0" "fy (heap (dragstart e0 L) a) = Some q0"
    using assms(2,3,4) by (simp_all add: heap_dragstart)
  from run_override[OF assms(5), of "dragstart e0 L"] s
  have o: "(fx (heap D a), fy (heap D a)) = pointer_override a (Some p0, Some q0) es"
    by (simp add: assms(6))
  from pointer_override_defined[of a p0 q0 es] o obtain p q
    where pq: "fx (heap D a) = Some p" "fy (heap D a) = Some q"
    by auto
  have n: "a \<in> set (sortedSites D)"
    using assms(1) by (simp add: assms(6) run_frame dragstart_def Let_def)
  have t: "\<forall>F. x (heap (tick F D) a) = fx (heap D a) \<and> y (heap (tick F D) a) = fy (heap D a) \<and>
              fx (heap (tick F D) a) = fx (heap D a) \<and> fy (heap (tick F D) a) = fy (heap D a)"
    using tick_pinned(1)[OF n pq(1)] tick_pinned(2)[OF n pq(2)] tick_pinned(3,4)[OF n]
    by (simp add: pq)
  have e: "\<forall>e. subject e = a \<longrightarrow>
              fx (heap (dragend e D) a) = None \<and> fy (heap (dragend e D) a) = None \<and>
              x (heap (dragend e D) a) = x (heap D a) \<and> y (heap (dragend e D) a) = y (heap D a) \<and>
              vx (heap (dragend e D) a) = vx (heap D a) \<and> vy (heap (dragend e D) a) = vy (heap D a)"
    by (simp add: heap_dragend)
  from s o pq t e show ?thesis by simp
qed

theorem dragged_node_follows_pointer_witness:
  "(fx (heap (run [Tick id, Drag \<lparr> active = 0, subject = 1, event_x = 10, event_y = 20 \<rparr>, Tick id]
              (dragstart \<lparr> active = 0, subject = 1, event_x = 0, event_y = 0 \<rparr> example_layout)) 1),
    fy (heap (run [Tick id, Drag \<lparr> active = 0, subject = 1, event_x = 10, event_y = 20 \<rparr>, Tick id]
              (dragstart \<lparr> active = 0, subject = 1, event_x = 0, event_y = 0 \<rparr> example_layout)) 1)) =
     (Some 10, Some 20) \<and>
   x (heap (tick id (run [Tick id, Drag \<lparr> active = 0, subject = 1, event_x = 10, event_y = 20 \<rparr>, Tick id]
              (dragstart \<lparr> active = 0, subject = 1, event_x = 0, event_y = 0 \<rparr> example_layout))) 1) =
     Some 10 \<and>
   y (heap (tick id (run [Tick id, Drag \<lparr> active = 0, subject = 1, event_x = 10, event_y = 20 \<rparr>, Tick id]
              (dragstart \<lparr> active = 0, subject = 1, event_x = 0, event_y = 0 \<rparr> example_layout))) 1) =
     Some 20 \<and>
   fx (heap (dragstart \<lparr> active = 0, subject = 1, event_x = 0, event_y = 0 \<rparr> example_layout) 1) =
     Some 400"
proof -
  let ?e0 = "\<lparr> active = 0, subject = 1, event_x = 0, event_y = 0 \<rparr>"
  let ?es = "[Tick id, Drag \<lparr> active = 0, subject = 1, event_x = 10, event_y = 20 \<rparr>, Tick id]"
  have n: "1 \<in> set (sortedSites example_layout)" by (simp add: sortedSites_example)
  have s: "subject ?e0 = 1" by simp
  have k: "\<forall>e \<in> set ?es. keeps_drag 1 e" by simp
  note t = dragged_node_follows_pointer[OF n s position_example k refl]
  from t have o: "(fx (heap (run ?es (dragstart ?e0 example_layout)) 1),
                   fy (heap (run ?es (dragstart ?e0 example_layout)) 1)) = (Some 10, Some 20)"
    by (simp del: run.simps)
  from t have tk: "x (heap (tick id (run ?es (dragstart ?e0 example_layout))) 1) =
                     fx (heap (run ?es (dragstart ?e0 example_layout)) 1)"
      "y (heap (tick id (run ?es (dragstart ?e0 example_layout))) 1) =
                     fy (heap (run ?es (dragstart ?e0 example_layout)) 1)"
    by blast+
  from t have st: "fx (heap (dragstart ?e0 example_layout) 1) = Some 400" by blast
  from o tk st show ?thesis by (simp del: run.simps)
qed

text \<open>
  C6. For node counts 1 <= m <= n the clamped frame-to-fit scale of n is at most
  that of m, and it lies between minScale = 0.5 and maxScale = 2; for 3 nodes the
  formula is max(0.1, 1/sqrt(3/20)), which clamps to 2.
\<close>

theorem frame_to_fit_scale_clamped:
  assumes "0 < m" and "m \<le> n"
  shows "clamp_scale getConfig (initialScale n) \<le> clamp_scale getConfig (initialScale m) \<and>
         zoom_minScale getConfig \<le> clamp_scale getConfig (initialScale n) \<and>
         clamp_scale getConfig (initialScale n) \<le> zoom_maxScale getConfig \<and>
         zoom_minScale getConfig = 0.5 \<and> zoom_maxScale getConfig = 2 \<and>
         initialScale 3 = max 0.1 (1 / sqrt (3 / 20)) \<and>
         clamp_scale getConfig (initialScale 3) = 2"
proof -
  have 1: "clamp_scale getConfig (initialScale n) \<le> clamp_scale getConfig (initialScale m)"
    by (rule clamp_scale_mono[OF initialScale_antimono[OF assms]])
  have 4: "zoom_minScale getConfig = 0.5" "zoom_maxScale getConfig = 2"
    by (simp_all add: getConfig_def)
  have 5: "initialScale 3 = max 0.1 (1 / sqrt (3 / 20))"
    by (simp add: initialScale_def)
  have 6: "clamp_scale getConfig (initialScale 3) = 2"
    using initialScale_3 by (simp add: clamp_scale_def getConfig_def)
  from 1 clamp_scale_range[of "initialScale n"] 4 5 6 show ?thesis by (intro conjI) simp_all
qed

theorem frame_to_fit_scale_clamped_witness:
  "clamp_scale getConfig (initialScale 20) \<le> clamp_scale getConfig (initialScale 3) \<and>
   clamp_scale getConfig (initialScale 20) = 1 \<and>
   clamp_scale getConfig (initialScale 3) = 2"
proof -
  have m: "0 < (3::nat)" and n: "(3::nat) \<le> 20" by simp_all
  note t = frame_to_fit_scale_clamped[OF m n]
  from t have a: "clamp_scale getConfig (initialScale 20) \<le> clamp_scale getConfig (initialScale 3)"
    by (rule conjunct1)
  from t have b: "clamp_scale getConfig (initialScale 3) = 2"
    by (elim conjE)
  have c: "clamp_scale getConfig (initialScale 20) = 1"
    by (simp add: clamp_scale_def initialScale_def getConfig_def)
  from a c b show ?thesis by (intro conjI)
qed

text \<open>
  C7. For a sort key f and a requested direction, the comparator of the sort
  orders two records by the key order of f: ascending, it is at most 0 exactly
  when the first key is at most the second; descending, it is the ascending
  comparison with its arguments exchanged. For the string keys (name, program)
  the comparison is the collation of the lowercased strings, so case plays no
  part; for the year it is the numeric difference. The array the ring is built
  from is ordered accordingly: ascending by the key order, or descending, given
  that the host's collation is total and transitive.
\<close>

theorem sort_order_by_key:
  assumes "\<forall>s t. localeCompare h s t \<le> 0 \<or> localeCompare h t s \<le> 0"
    and "\<forall>s t u. localeCompare h s t \<le> 0 \<longrightarrow> localeCompare h t u \<le> 0 \<longrightarrow>
           localeCompare h s u \<le> 0"
    and "setup_layout h containerRef (Some wd) (Some f) (Some d) st = Some L"
  shows "(compareSites h (Some f) (Some Asc) a b \<le> 0) = key_le h f a b \<and>
         compareSites h (Some f) (Some Desc) a b = compareSites h (Some f) (Some Asc) b a \<and>
         compareSites h (Some Name) (Some Asc) a b =
           localeCompare h (toLowerCase h (name a)) (toLowerCase h (name b)) \<and>
         compareSites h (Some Program) (Some Asc) a b =
           localeCompare h (toLowerCase h (program a)) (toLowerCase h (program b)) \<and>
         compareSites h (Some Year) (Some Asc) a b = year a - year b \<and>
         sorted_wrt
           (\<lambda>p q. case d of Asc \<Rightarrow> key_le h f (heap L p) (heap L q)
                            | Desc \<Rightarrow> key_le h f (heap L q) (heap L p))
           (sortedSites L)"
proof -
  from setup_layout_SomeD[OF assms(3)] obtain cont
    where L: "L = build_layout h cont wd (Some f) (Some d) st"
    by auto
  let ?le = "\<lambda>p q. case d of Asc \<Rightarrow> key_le h f (st p) (st q) | Desc \<Rightarrow> key_le h f (st q) (st p)"
  let ?cmp = "\<lambda>p q. compareSites h (Some f) (Some d) (st p) (st q)"
  have total: "\<And>p q. ?le p q \<or> ?le q p"
    using key_le_total[OF assms(1)] by (cases d) simp_all
  have trans: "\<And>p q r. ?le p q \<Longrightarrow> ?le q r \<Longrightarrow> ?le p r"
    using key_le_trans[OF assms(2)] by (cases d) auto
  have cmp: "\<And>p q. (?cmp p q \<le> 0) = ?le p q"
    by (cases d) (simp_all add: compareSites_asc compareSites_desc)
  have "sorted_wrt ?le (sort_cmp ?cmp (sites wd))"
    by (rule sorted_wrt_sort_cmp[of ?le ?cmp, OF total trans cmp])
  then have 6: "sorted_wrt
           (\<lambda>p q. case d of Asc \<Rightarrow> key_le h f (heap L p) (heap L q)
                            | Desc \<Rightarrow> key_le h f (heap L q) (heap L p))
           (sortedSites L)"
    unfolding L by (cases d) (simp_all add: key_le_build sortedSites_build)
  have 3: "compareSites h (Some Name) (Some Asc) a b =
           localeCompare h (toLowerCase h (name a)) (toLowerCase h (name b))"
    and 4: "compareSites h (Some Program) (Some Asc) a b =
           localeCompare h (toLowerCase h (program a)) (toLowerCase h (program b))"
    and 5: "compareSites h (Some Year) (Some Asc) a b = year a - year b"
    by (simp_all add: compareSites_def sortValues_def)
  from compareSites_asc[of h f a b] compareSites_desc[of h f a b] 3 4 5 6
  show ?thesis by (intro conjI)
qed

theorem sort_order_by_key_witness:
  "sorted_wrt
     (\<lambda>p q. key_le example_host Name (heap example_layout p) (heap example_layout q))
     (sortedSites example_layout) \<and>
   sortedSites example_layout = [1, 2, 0] \<and>
   map (\<lambda>p. name (heap example_layout p)) (sortedSites example_layout) = [''ada'', ''Bob'', ''Cleo''] \<and>
   compareSites example_host (Some Name) (Some Desc) (example_store 0) (example_store 1) =
     compareSites example_host (Some Name) (Some Asc) (example_store 1) (example_store 0) \<and>
   compareSites example_host (Some Year) (Some Asc) (example_store 0) (example_store 1) = 2"
proof -
  have t: "\<forall>s t. localeCompare example_host s t \<le> 0 \<or> localeCompare example_host t s \<le> 0"
    by (simp add: example_host_def codepoint_compare_total)
  have tr: "\<forall>s t u. localeCompare example_host s t \<le> 0 \<longrightarrow> localeCompare example_host t u \<le> 0 \<longrightarrow>
           localeCompare example_host s u \<le> 0"
    using codepoint_compare_trans by (simp add: example_host_def)
  note th = sort_order_by_key[OF t tr setup_layout_example]
  have n: "map (\<lambda>p. name (heap example_layout p)) (sortedSites example_layout) = [''ada'', ''Bob'', ''Cleo'']"
    by code_simp
  from th[of "example_store 0" "example_store 1"] sortedSites_example n
  show ?thesis by (simp add: example_store_def example_site_def)
qed

text \<open>
  C8. Whatever happened to the layout before (ticks, drags, the pointer entering
  and leaving circles), the highlight effect leaves one circle per node, and the
  circle of a node has the highlight colour when the node's program equals the
  hovered program or its name equals the hovered site, and the base fill colour
  otherwise; the two colours differ. All circles are set at once and the
  pointer's position plays no part.
\<close>

theorem external_highlight:
  assumes "setup_layout h containerRef data sortField sortDirection st = Some L"
  shows "length (circles (highlightEffect (Some cont) hoveredProgram hoveredSite (run es L))) =
           length (sortedSites L) \<and>
         (\<forall>i < length (sortedSites L).
            datum (circles (highlightEffect (Some cont) hoveredProgram hoveredSite (run es L)) ! i) =
              sortedSites L ! i \<and>
            fill (circles (highlightEffect (Some cont) hoveredProgram hoveredSite (run es L)) ! i) =
              (if hoveredProgram = Some (program (st (sortedSites L ! i))) \<or>
                  hoveredSite = Some (name (st (sortedSites L ! i)))
               then node_hoverColor getConfig else node_fillColor getConfig)) \<and>
         node_hoverColor getConfig \<noteq> node_fillColor getConfig"
proof -
  from setup_layout_SomeD[OF assms] obtain c0 wd
    where L: "L = build_layout h c0 wd sortField sortDirection st"
    by auto
  have m: "map datum (circles (run es L)) = sortedSites L"
    by (simp add: run_frame) (simp add: L circles_build)
  then have len: "length (circles (run es L)) = length (sortedSites L)"
    by (metis length_map)
  have 1: "length (circles (highlightEffect (Some cont) hoveredProgram hoveredSite (run es L))) =
           length (sortedSites L)"
    by (simp add: circles_highlightEffect len)
  have 2: "\<forall>i < length (sortedSites L).
            datum (circles (highlightEffect (Some cont) hoveredProgram hoveredSite (run es L)) ! i) =
              sortedSites L ! i \<and>
            fill (circles (highlightEffect (Some cont) hoveredProgram hoveredSite (run es L)) ! i) =
              (if hoveredProgram = Some (program (st (sortedSites L ! i))) \<or>
                  hoveredSite = Some (name (st (sortedSites L ! i)))
               then node_hoverColor getConfig else node_fillColor getConfig)"
  proof (intro allI impI)
    fix i assume i: "i < length (sortedSites L)"
    then have i': "i < length (circles (run es L))" by (simp add: len)
    have d: "datum (circles (run es L) ! i) = sortedSites L ! i"
      using nth_map[OF i', of datum] by (simp add: m)
    have k: "name (heap (run es L) (sortedSites L ! i)) = name (st (sortedSites L ! i))"
      "program (heap (run es L) (sortedSites L ! i)) = program (st (sortedSites L ! i))"
      by (simp_all add: run_keeps_keys) (simp_all add: L build_keeps_keys)
    show "datum (circles (highlightEffect (Some cont) hoveredProgram hoveredSite (run es L)) ! i) =
              sortedSites L ! i \<and>
            fill (circles (highlightEffect (Some cont) hoveredProgram hoveredSite (run es L)) ! i) =
              (if hoveredProgram = Some (program (st (sortedSites L ! i))) \<or>
                  hoveredSite = Some (name (st (sortedSites L ! i)))
               then node_hoverColor getConfig else node_fillColor getConfig)"
      by (simp add: circles_highlightEffect i' d k highlight_fill_def)
  qed
  have 3: "node_hoverColor getConfig \<noteq> node_fillColor getConfig"
    by (simp add: getConfig_def)
  from 1 2 3 show ?thesis by (intro conjI)
qed

theorem external_highlight_witness:
  "map fill (circles (highlightEffect (Some example_container) (Some ''COEN'') None
       (run [MouseEnter 2, MouseLeave 0] example_layout))) =
   [''#fbcb97'', ''#fbcb97'', ''#333333'']"
proof -
  let ?cs = "circles (highlightEffect (Some example_container) (Some ''COEN'') None
       (run [MouseEnter 2, MouseLeave 0] example_layout))"
  note t = external_highlight[OF setup_layout_example, of example_container "Some ''COEN''" None
      "[MouseEnter 2, MouseLeave 0]"]
  from t have len: "length ?cs = 3" by (simp add: sortedSites_example)
  from t have f: "\<forall>i < 3. fill (?cs ! i) =
              (if Some ''COEN'' = Some (program (example_store (sortedSites example_layout ! i)))
               then node_hoverColor getConfig else node_fillColor getConfig)"
    by (simp add: sortedSites_example)
  from f[rule_format, of 0] f[rule_format, of 1] f[rule_format, of 2]
  have n: "fill (?cs ! 0) = ''#fbcb97''" "fill (?cs ! 1) = ''#fbcb97''" "fill (?cs ! 2) = ''#333333''"
    by (simp_all add: sortedSites_example example_store_def example_site_def getConfig_def)
  from len obtain c0 c1 c2 where cs: "?cs = [c0, c1, c2]"
    by (auto simp: length_Suc_conv numeral_3_eq_3)
  from n show ?thesis unfolding cs by simp
qed

text \<open>
  C9. For an empty input list the setup returns at once: no layout instance is
  built (no nodes, no links, no simulation, hence nothing that could tick or
  draw), and no error is raised. The setup builds nothing exactly when the
  container is missing, the data is missing or the list is empty.
\<close>

theorem setup_empty_returns_nothing:
  "setup_layout h containerRef (Some (WebringData [])) sortField sortDirection st = None \<and>
   (setup_layout h containerRef data sortField sortDirection st = None) =
     (containerRef = None \<or> data = None \<or> (\<exists>wd. data = Some wd \<and> sites wd = []))"
proof -
  have 1: "setup_layout h containerRef (Some (WebringData [])) sortField sortDirection st = None"
    by (simp add: setup_layout_def split: option.split)
  have 2: "(setup_layout h containerRef data sortField sortDirection st = None) =
     (containerRef = None \<or> data = None \<or> (\<exists>wd. data = Some wd \<and> sites wd = []))"
    by (cases containerRef; cases data) (simp_all add: setup_layout_def)
  from 1 2 show ?thesis by (rule conjI)
qed




end
